theory Spec2Isabelle
  imports Complex_Main
begin

section \<open>Values of the signal processor\<close>

text \<open>
  The C++ library works on \<open>std::vector<double>\<close>, \<open>std::complex<double>\<close> and \<open>int\<close>.

  \<^item> A sample handed to the library is a finite double and is modelled as a \<open>real\<close>.
  \<^item> Where the result of an operation depends on a comparison, a zero test or a
    truncation of a computed double (the noise power of \<open>calculate_snr\<close>, the magnitudes
    of \<open>find_peak_frequency\<close>, the sample count of \<open>generate_test_signal\<close>), the double
    is computed as IEEE 754 computes it: the exact result rounded to the nearest binary64
    value, ties to even, overflowing to an infinity. Such a double is an \<open>ieee\<close>.
  \<^item> Elsewhere (the design and the convolution of the filter, the samples of the
    generator, the conversion of a bin to a frequency) arithmetic on doubles is exact real
    arithmetic, and a computed double is a \<open>dbl\<close>: either \<open>Finite r\<close>, or \<open>NonFinite\<close>,
    which stands for the IEEE values NaN, +inf and -inf. C++ does not raise on a floating
    division by zero: it goes on with such a value, and so does the model.
  \<^item> An \<open>int\<close> is modelled as a HOL \<open>int\<close>; signal lengths and tap counts are taken
    to fit the C++ \<open>int\<close>, so that no conversion from \<open>size_t\<close> wraps.
  \<^item> A C++ exception is an \<open>error\<close> value; a function that can throw returns
    \<open>error + 'a\<close>. Undefined behaviour (a read outside a buffer, a cast of a double
    outside the range of \<open>int\<close>) is an \<open>error\<close> value too.
  \<^item> Memory is taken to suffice: a failed allocation (\<open>std::bad_alloc\<close>) is not modelled.
\<close>

datatype error =
    InvalidArgument  \<comment> \<open>\<open>std::invalid_argument\<close>, thrown by the library itself\<close>
  | LengthError      \<comment> \<open>\<open>std::length_error\<close>, thrown by \<open>std::vector\<close> for a size above \<open>max_size()\<close>\<close>
  | OutOfBounds      \<comment> \<open>a read outside an allocated buffer (undefined behaviour in C++)\<close>
  | CastOutOfRange   \<comment> \<open>\<open>static_cast<int>\<close> of a double outside the range of \<open>int\<close> (undefined behaviour)\<close>

datatype dbl = Finite real | NonFinite

text \<open>
  Arithmetic on computed doubles. \<open>NonFinite\<close> is absorbing: NaN propagates, and an
  infinity combined with a finite value or with another infinity stays an infinity or
  becomes NaN. A finite value divided by zero is an infinity or (for \<open>0/0\<close>) NaN.
  IEEE gives a finite result from a non-finite operand only when a finite value is
  divided by an infinity; every divisor of the model is a \<open>Finite\<close> value except the
  coefficient sum. That sum is finite unless the centre tap has overflowed (lemma
  \<open>coeff_sum_finite\<close> below), and then the sum of the code is NaN or the infinite tap is
  the only one: every quotient is NaN.
\<close>

fun dadd :: "dbl \<Rightarrow> dbl \<Rightarrow> dbl" where
  "dadd (Finite a) (Finite b) = Finite (a + b)"
| "dadd _ _ = NonFinite"

fun dsub :: "dbl \<Rightarrow> dbl \<Rightarrow> dbl" where
  "dsub (Finite a) (Finite b) = Finite (a - b)"
| "dsub _ _ = NonFinite"

fun dmul :: "dbl \<Rightarrow> dbl \<Rightarrow> dbl" where
  "dmul (Finite a) (Finite b) = Finite (a * b)"
| "dmul _ _ = NonFinite"

fun ddiv :: "dbl \<Rightarrow> dbl \<Rightarrow> dbl" where
  "ddiv (Finite a) (Finite b) = (if b = 0 then NonFinite else Finite (a / b))"
| "ddiv _ _ = NonFinite"

fun dsin :: "dbl \<Rightarrow> dbl" where
  "dsin (Finite a) = Finite (sin a)"
| "dsin NonFinite = NonFinite"

fun dcos :: "dbl \<Rightarrow> dbl" where
  "dcos (Finite a) = Finite (cos a)"
| "dcos NonFinite = NonFinite"

section \<open>IEEE doubles\<close>

datatype ieee = Val real | PlusInf | MinusInf | NaN

text \<open>
  Rounding to binary64. A non-zero real \<open>x\<close> with \<open>2^k \<le> \<bar>x\<bar> < 2^(k+1)\<close> lies between two
  multiples of \<open>2^(k-52)\<close> (of \<open>2^(-1074)\<close> in the subnormal range) and is rounded to the
  nearest one, to the even one at a tie; a result of \<open>2^1024\<close> is an infinity. The model
  has a single zero.
\<close>

definition ulp_exponent :: "real \<Rightarrow> int" where
  "ulp_exponent a = max (\<lfloor>log 2 a\<rfloor> - 52) (- 1074)"

definition round_half_even :: "real \<Rightarrow> int" where
  "round_half_even q =
     (let f = \<lfloor>q\<rfloor>; r = q - of_int f
      in if r < 1/2 then f
         else if 1/2 < r then f + 1
         else if even f then f else f + 1)"

definition round_double :: "real \<Rightarrow> ieee" where
  "round_double x =
     (if x = 0 then Val 0
      else
        let u = 2 powr real_of_int (ulp_exponent \<bar>x\<bar>);
            v = of_int (round_half_even (\<bar>x\<bar> / u)) * u
        in if v < 2 ^ 1024 then Val (sgn x * v)
           else if 0 < x then PlusInf else MinusInf)"

text \<open>
  The IEEE operations: the rounded exact result on finite operands, and the rules of
  the standard for infinities and NaN. The single zero of the model is taken as
  \<open>+0.0\<close> where a division by it is defined; \<open>calculate_snr\<close> divides by a noise
  power that is not zero. \<open>std::log10\<close> is taken to round correctly.
\<close>

fun fp_add :: "ieee \<Rightarrow> ieee \<Rightarrow> ieee" where
  "fp_add (Val a) (Val b) = round_double (a + b)"
| "fp_add NaN _ = NaN"
| "fp_add _ NaN = NaN"
| "fp_add PlusInf MinusInf = NaN"
| "fp_add MinusInf PlusInf = NaN"
| "fp_add PlusInf _ = PlusInf"
| "fp_add _ PlusInf = PlusInf"
| "fp_add MinusInf _ = MinusInf"
| "fp_add _ MinusInf = MinusInf"

fun fp_sub :: "ieee \<Rightarrow> ieee \<Rightarrow> ieee" where
  "fp_sub (Val a) (Val b) = round_double (a - b)"
| "fp_sub NaN _ = NaN"
| "fp_sub _ NaN = NaN"
| "fp_sub PlusInf PlusInf = NaN"
| "fp_sub MinusInf MinusInf = NaN"
| "fp_sub PlusInf _ = PlusInf"
| "fp_sub _ MinusInf = PlusInf"
| "fp_sub MinusInf _ = MinusInf"
| "fp_sub _ PlusInf = MinusInf"

fun fp_mul :: "ieee \<Rightarrow> ieee \<Rightarrow> ieee" where
  "fp_mul (Val a) (Val b) = round_double (a * b)"
| "fp_mul NaN _ = NaN"
| "fp_mul _ NaN = NaN"
| "fp_mul PlusInf (Val b) = (if b = 0 then NaN else if 0 < b then PlusInf else MinusInf)"
| "fp_mul MinusInf (Val b) = (if b = 0 then NaN else if 0 < b then MinusInf else PlusInf)"
| "fp_mul (Val a) PlusInf = (if a = 0 then NaN else if 0 < a then PlusInf else MinusInf)"
| "fp_mul (Val a) MinusInf = (if a = 0 then NaN else if 0 < a then MinusInf else PlusInf)"
| "fp_mul PlusInf PlusInf = PlusInf"
| "fp_mul MinusInf MinusInf = PlusInf"
| "fp_mul PlusInf MinusInf = MinusInf"
| "fp_mul MinusInf PlusInf = MinusInf"

fun fp_div :: "ieee \<Rightarrow> ieee \<Rightarrow> ieee" where
  "fp_div (Val a) (Val b) =
     (if b = 0 then (if a = 0 then NaN else if 0 < a then PlusInf else MinusInf)
      else round_double (a / b))"
| "fp_div NaN _ = NaN"
| "fp_div _ NaN = NaN"
| "fp_div (Val a) PlusInf = Val 0"
| "fp_div (Val a) MinusInf = Val 0"
| "fp_div PlusInf (Val b) = (if 0 \<le> b then PlusInf else MinusInf)"
| "fp_div MinusInf (Val b) = (if 0 \<le> b then MinusInf else PlusInf)"
| "fp_div _ _ = NaN"

fun fp_log10 :: "ieee \<Rightarrow> ieee" where
  "fp_log10 (Val a) =
     (if 0 < a then round_double (log 10 a) else if a = 0 then MinusInf else NaN)"
| "fp_log10 PlusInf = PlusInf"
| "fp_log10 MinusInf = NaN"
| "fp_log10 NaN = NaN"

fun fp_gt :: "ieee \<Rightarrow> ieee \<Rightarrow> bool" where
  "fp_gt (Val a) (Val b) = (a > b)"
| "fp_gt NaN _ = False"
| "fp_gt _ NaN = False"
| "fp_gt PlusInf PlusInf = False"
| "fp_gt PlusInf _ = True"
| "fp_gt _ PlusInf = False"
| "fp_gt MinusInf _ = False"
| "fp_gt _ MinusInf = True"

section \<open>Signal-to-noise ratio\<close>

text \<open>
  \<open>calculate_snr\<close> (signal_processor.cpp): the length check, the two accumulation loops
  over \<open>i = 0 .. N-1\<close>, the zero test on the noise power and the conversion to decibels.
\<close>

definition signal_power_of :: "real list \<Rightarrow> ieee" where
  "signal_power_of signal =
     foldl (\<lambda>signal_power i. fp_add signal_power (fp_mul (Val (signal ! i)) (Val (signal ! i))))
       (Val 0) [0..<length signal]"

definition noise_power_of :: "real list \<Rightarrow> real list \<Rightarrow> ieee" where
  "noise_power_of signal noisy =
     foldl (\<lambda>noise_power i.
              let noise = fp_sub (Val (noisy ! i)) (Val (signal ! i))
              in fp_add noise_power (fp_mul noise noise))
       (Val 0) [0..<length signal]"

definition calculate_snr :: "real list \<Rightarrow> real list \<Rightarrow> error + ieee" where
  "calculate_snr signal noisy =
     (if length signal \<noteq> length noisy then Inl InvalidArgument
      else
        let signal_power = signal_power_of signal;
            noise_power = noise_power_of signal noisy
        in if noise_power = Val 0 then Inr (Val 100)
           else Inr (fp_mul (Val 10) (fp_log10 (fp_div signal_power noise_power))))"

section \<open>Peak frequency detection\<close>

text \<open>
  \<open>find_peak_frequency\<close>: the guard for the empty spectrum, the scan for the largest
  magnitude, starting from \<open>max_bin = 0\<close>, \<open>max_magnitude = 0.0\<close> and replacing both
  on a strictly larger magnitude, and the conversion of the bin to a frequency by a
  floating division. The magnitude \<open>std::abs\<close> of a complex number is the double nearest
  to the exact modulus \<open>cmod\<close> (plus infinity when that overflows): the comparison is
  between rounded magnitudes.
\<close>

definition peak_step :: "complex list \<Rightarrow> int \<times> ieee \<Rightarrow> nat \<Rightarrow> int \<times> ieee" where
  "peak_step fft_output st i =
     (case st of (max_bin, max_magnitude) \<Rightarrow>
        let magnitude = round_double (cmod (fft_output ! i))
        in if fp_gt magnitude max_magnitude then (int i, magnitude)
           else (max_bin, max_magnitude))"

definition total_bins_of :: "complex list \<Rightarrow> int" where
  "total_bins_of fft_output = (int (length fft_output) - 1) * 2"

definition find_peak_frequency :: "complex list \<Rightarrow> real \<Rightarrow> dbl" where
  "find_peak_frequency fft_output sample_rate =
     (if fft_output = [] then Finite 0
      else
        case foldl (peak_step fft_output) (0, Val 0) [0..<length fft_output] of
          (max_bin, max_magnitude) \<Rightarrow>
            let total_bins = total_bins_of fft_output
            in ddiv (dmul (Finite (of_int max_bin)) (Finite sample_rate))
                    (Finite (of_int total_bins)))"

section \<open>Low-pass filter\<close>

text \<open>
  \<open>apply_lowpass_filter\<close>, step 1: the windowed-sinc design. The coefficient vector is
  constructed with \<open>num_taps\<close> elements first; \<open>center = num_taps / 2\<close>; tap \<open>i\<close> is
  \<open>2 * cutoff_freq\<close> at offset 0 and the sinc value times the Hamming window elsewhere.
  Then every coefficient is divided by the sum of all of them.
\<close>

definition sinc_value :: "real \<Rightarrow> int \<Rightarrow> dbl" where
  "sinc_value cutoff_freq offset =
     ddiv (Finite (sin (2 * pi * cutoff_freq * of_int offset))) (Finite (pi * of_int offset))"

definition hamming_window :: "int \<Rightarrow> int \<Rightarrow> dbl" where
  "hamming_window i num_taps =
     dsub (Finite 0.54)
       (dmul (Finite 0.46)
          (dcos (ddiv (Finite (2 * pi * of_int i)) (Finite (of_int (num_taps - 1))))))"

text \<open>
  The centre tap \<open>2.0 * cutoff_freq\<close> is the one product of the design that leaves the
  range of doubles for a large operand: it is an infinity when its magnitude reaches
  \<open>2^1024 - 2^970\<close>, the bound from which \<open>round_double\<close> overflows.
\<close>

definition center_tap :: "real \<Rightarrow> dbl" where
  "center_tap cutoff_freq =
     (if \<bar>2 * cutoff_freq\<bar> < 2 ^ 1024 - 2 ^ 970 then Finite (2 * cutoff_freq) else NonFinite)"

definition design_coeff :: "real \<Rightarrow> int \<Rightarrow> int \<Rightarrow> int \<Rightarrow> dbl" where
  "design_coeff cutoff_freq num_taps center i =
     (let offset = i - center
      in if offset = 0 then center_tap cutoff_freq
         else dmul (sinc_value cutoff_freq offset) (hamming_window i num_taps))"

definition coeff_sum :: "dbl list \<Rightarrow> dbl" where
  "coeff_sum coeffs = foldl (\<lambda>total coeff. dadd total coeff) (Finite 0) coeffs"

definition normalize_coeffs :: "dbl list \<Rightarrow> dbl list" where
  "normalize_coeffs coeffs =
     (let total = coeff_sum coeffs in map (\<lambda>coeff. ddiv coeff total) coeffs)"

text \<open>
  The coefficients for \<open>0 \<le> num_taps\<close> (the C++ \<open>/\<close> on a non-negative \<open>int\<close> is
  \<open>div\<close>); the loop \<open>for (int i = 0; i < num_taps; ++i)\<close> runs over \<open>[0..<nat num_taps]\<close>.
\<close>

definition filter_coeffs :: "real \<Rightarrow> int \<Rightarrow> dbl list" where
  "filter_coeffs cutoff_freq num_taps =
     (let center = num_taps div 2
      in normalize_coeffs
           (map (\<lambda>i. design_coeff cutoff_freq num_taps center (int i)) [0..<nat num_taps]))"

text \<open>
  The value of tap \<open>i\<close> of a filter of \<open>2 h + 1\<close> taps as a real number: the expressions
  of \<open>design_coeff\<close>, \<open>sinc_value\<close> and \<open>hamming_window\<close> with \<open>center = h\<close> and
  \<open>num_taps - 1 = 2 h\<close>. It serves to state the lemmas on the coefficient sum.
\<close>

definition tap_value :: "real \<Rightarrow> nat \<Rightarrow> nat \<Rightarrow> real" where
  "tap_value cutoff_freq h i =
     (if int i - int h = 0 then 2 * cutoff_freq
      else sin (2 * pi * cutoff_freq * real_of_int (int i - int h)) /
             (pi * real_of_int (int i - int h)) *
           (0.54 - 0.46 * cos (2 * pi * real_of_int (int i) / real_of_int (2 * int h))))"

text \<open>
  Step 2: the convolution. One multiply-accumulate step of the inner loop: the product
  is added only when \<open>input_idx\<close> is inside the input.
\<close>

definition mac :: "real list \<Rightarrow> dbl list \<Rightarrow> int \<Rightarrow> int \<Rightarrow> dbl \<Rightarrow> nat \<Rightarrow> dbl" where
  "mac input coeffs center i acc j =
     (let input_idx = i - center + int j
      in if input_idx \<ge> 0 \<and> input_idx < int (length input)
         then dadd acc (dmul (Finite (input ! nat input_idx)) (coeffs ! j))
         else acc)"

text \<open>
  A negative \<open>num_taps\<close> converts to a \<open>size_t\<close> above \<open>max_size()\<close>, on which the
  constructor of \<open>filter_coeffs\<close> throws \<open>std::length_error\<close>; the function has no check
  of its own.
\<close>

definition apply_lowpass_filter :: "real list \<Rightarrow> real \<Rightarrow> int \<Rightarrow> error + dbl list" where
  "apply_lowpass_filter input cutoff_freq num_taps =
     (if num_taps < 0 then Inl LengthError
      else
        let center = num_taps div 2;
            coeffs = filter_coeffs cutoff_freq num_taps;
            input_size = length input
        in Inr (map (\<lambda>i. foldl (mac input coeffs center (int i)) (Finite 0) [0..<nat num_taps])
                  [0..<input_size]))"

section \<open>Fourier transform\<close>

text \<open>
  \<open>compute_fft\<close> copies the input into a buffer, lets FFTW (an external library) fill
  the buffer \<open>out\<close>, allocated with \<open>N\<close> complex cells, and copies the cells
  \<open>0 .. N/2\<close> into the result, a vector constructed with \<open>N / 2 + 1\<close> elements. The
  transform is a parameter \<open>fftw\<close>: \<open>fftw xs i\<close> is the value it leaves in cell \<open>i\<close>.
  A read of a cell that was not allocated is the error \<open>OutOfBounds\<close>.
\<close>

definition read_cell :: "nat \<Rightarrow> (nat \<Rightarrow> 'a) \<Rightarrow> nat \<Rightarrow> error + 'a" where
  "read_cell cells buf i = (if i < cells then Inr (buf i) else Inl OutOfBounds)"

fun collect :: "(error + 'a) list \<Rightarrow> error + 'a list" where
  "collect [] = Inr []"
| "collect (Inl e # rs) = Inl e"
| "collect (Inr x # rs) = (case collect rs of Inl e \<Rightarrow> Inl e | Inr xs \<Rightarrow> Inr (x # xs))"

definition compute_fft :: "(real list \<Rightarrow> nat \<Rightarrow> complex) \<Rightarrow> real list \<Rightarrow> error + complex list" where
  "compute_fft fftw input =
     (let N = length input;
          in_buf = map (\<lambda>i. input ! i) [0..<N];
          out = fftw in_buf
      in collect (map (\<lambda>i. read_cell N out i) [0..<N div 2 + 1]))"

text \<open>
  Modelled from the spec: the transform library is not part of the repository. Its
  contract (spec 4.4) is the unnormalised forward transform, bin \<open>k\<close> being
  \<open>\<Sum>n. input[n] * exp (-2\<pi>i * n * k / N)\<close>. It is used only to instantiate the parameter
  of \<open>compute_fft\<close> at a concrete input.
\<close>

definition dft_r2c :: "real list \<Rightarrow> nat \<Rightarrow> complex" where
  "dft_r2c xs k =
     (\<Sum>n<length xs. of_real (xs ! n) * cis (- 2 * pi * real n * real k / real (length xs)))"

section \<open>Signal generation\<close>

text \<open>
  \<open>generate_test_signal\<close>. The sample count is the double product
  \<open>sample_rate * duration\<close> cast to \<open>int\<close>: \<open>static_cast<int>\<close> truncates towards zero a
  double whose truncation fits an \<open>int\<close>, and is undefined on any other double. A
  negative count makes the vector constructor throw \<open>std::length_error\<close>. The random
  source is a parameter: \<open>noise_dist a i\<close> is the \<open>i\<close>-th value drawn from the normal
  distribution of standard deviation \<open>a\<close>.
\<close>

fun static_cast_int :: "ieee \<Rightarrow> error + int" where
  "static_cast_int (Val x) =
     (if - (2 ^ 31) - 1 < x \<and> x < 2 ^ 31
      then Inr (if 0 \<le> x then \<lfloor>x\<rfloor> else \<lceil>x\<rceil>)
      else Inl CastOutOfRange)"
| "static_cast_int PlusInf = Inl CastOutOfRange"
| "static_cast_int MinusInf = Inl CastOutOfRange"
| "static_cast_int NaN = Inl CastOutOfRange"

definition generate_test_signal ::
    "(real \<Rightarrow> nat \<Rightarrow> real) \<Rightarrow> real \<Rightarrow> real \<Rightarrow> real \<Rightarrow> real \<Rightarrow> error + dbl list" where
  "generate_test_signal noise_dist frequency sample_rate duration noise_amplitude =
     (case static_cast_int (fp_mul (Val sample_rate) (Val duration)) of
        Inl e \<Rightarrow> Inl e
      | Inr num_samples \<Rightarrow>
          if num_samples < 0 then Inl LengthError
          else Inr (map (\<lambda>i.
                      let t = ddiv (Finite (real i)) (Finite sample_rate);
                          sine_value = dsin (dmul (Finite (2 * pi * frequency)) t);
                          noise = Finite (noise_dist noise_amplitude i)
                      in dadd sine_value noise)
                    [0..<nat num_samples]))"

text \<open>The random source at amplitude 0: every draw is \<open>0\<close>.\<close>

definition zero_noise :: "real \<Rightarrow> nat \<Rightarrow> real" where
  "zero_noise a i = 0"

section \<open>Properties of the rounding\<close>

lemma round_double_zero: "round_double 0 = Val 0"
  by (simp add: round_double_def)

lemma round_half_even_floor: "\<lfloor>q\<rfloor> \<le> round_half_even q"
  by (simp add: round_half_even_def Let_def)

lemma round_half_even_nonneg: "0 \<le> q \<Longrightarrow> 0 \<le> round_half_even q"
proof -
  assume "0 \<le> q"
  then have "0 \<le> \<lfloor>q\<rfloor>" by simp
  with round_half_even_floor [of q] show ?thesis by linarith
qed

lemma round_half_even_near:
  assumes "\<bar>q - of_int n\<bar> < 1/2"
  shows "round_half_even q = n"
proof (cases "of_int n \<le> q")
  case True
  with assms have "\<lfloor>q\<rfloor> = n" by (intro floor_unique) (simp_all add: abs_less_iff)
  with assms True show ?thesis by (simp add: round_half_even_def Let_def abs_less_iff)
next
  case False
  with assms have f: "\<lfloor>q\<rfloor> = n - 1" by (intro floor_unique) (simp_all add: abs_less_iff)
  from assms False have "1/2 < q - of_int (n - 1)" by (simp add: abs_less_iff)
  with f show ?thesis by (simp add: round_half_even_def Let_def)
qed

lemma round_half_even_of_int: "round_half_even (of_int n) = n"
  by (rule round_half_even_near) simp

lemma round_double_nonneg:
  assumes "0 \<le> x" and "round_double x = Val p"
  shows "0 \<le> p"
proof (cases "x = 0")
  case True
  with assms show ?thesis by (simp add: round_double_def)
next
  case False
  let ?u = "2 powr real_of_int (ulp_exponent \<bar>x\<bar>)"
  have u: "0 < ?u" by simp
  then have "0 \<le> \<bar>x\<bar> / ?u" by simp
  then have "0 \<le> round_half_even (\<bar>x\<bar> / ?u)" by (rule round_half_even_nonneg)
  then have v: "0 \<le> of_int (round_half_even (\<bar>x\<bar> / ?u)) * ?u" by simp
  from assms False have "p = sgn x * (of_int (round_half_even (\<bar>x\<bar> / ?u)) * ?u)"
    by (auto simp: round_double_def Let_def split: if_splits)
  with v assms(1) show ?thesis by (simp add: sgn_if)
qed

text \<open>
  In the normal range: a real within half a unit of a multiple of the spacing rounds to
  that multiple; a multiple of the spacing is a double and rounds to itself; from
  \<open>2^1024\<close> on the result is an infinity.
\<close>

lemma ulp_exponent_normal:
  assumes "2 powr real_of_int k \<le> a" "a < 2 powr real_of_int (k + 1)" "- 1022 \<le> k"
  shows "ulp_exponent a = k - 52"
proof -
  have "0 < 2 powr real_of_int k" by simp
  with assms(1) have "0 < a" by linarith
  with assms(1,2) have "\<lfloor>log 2 a\<rfloor> = k" by (simp add: floor_log_eq_powr_iff)
  with assms(3) show ?thesis by (simp add: ulp_exponent_def)
qed

lemma round_double_near:
  assumes low: "2 powr real_of_int k \<le> \<bar>x\<bar>" and high: "\<bar>x\<bar> < 2 powr real_of_int (k + 1)"
    and k: "- 1022 \<le> k"
    and n: "\<bar>\<bar>x\<bar> / 2 powr real_of_int (k - 52) - of_int n\<bar> < 1/2"
    and fin: "of_int n * 2 powr real_of_int (k - 52) < 2 ^ 1024"
  shows "round_double x = Val (sgn x * (of_int n * 2 powr real_of_int (k - 52)))"
proof -
  have "0 < 2 powr real_of_int k" by simp
  with low have nz: "x \<noteq> 0" by auto
  note e = ulp_exponent_normal [OF low high k]
  note r = round_half_even_near [OF n]
  show ?thesis
    using nz fin by (simp only: round_double_def Let_def e r if_True if_False)
qed

lemma round_double_exact:
  assumes low: "2 powr real_of_int k \<le> \<bar>x\<bar>" and high: "\<bar>x\<bar> < 2 powr real_of_int (k + 1)"
    and k: "- 1022 \<le> k" "k \<le> 1023"
    and n: "\<bar>x\<bar> / 2 powr real_of_int (k - 52) = of_int n"
  shows "round_double x = Val x"
proof -
  have v: "of_int n * 2 powr real_of_int (k - 52) = \<bar>x\<bar>"
    using n [symmetric] by simp
  have "2 powr real_of_int (k + 1) \<le> 2 powr 1024"
    using k by (intro powr_mono) simp_all
  then have "2 powr real_of_int (k + 1) \<le> (2::real) ^ 1024" by simp
  with high have fin: "of_int n * 2 powr real_of_int (k - 52) < 2 ^ 1024"
    by (simp only: v)
  have "round_double x = Val (sgn x * (of_int n * 2 powr real_of_int (k - 52)))"
  proof (rule round_double_near [OF low high k(1) _ fin])
    show "\<bar>\<bar>x\<bar> / 2 powr real_of_int (k - 52) - of_int n\<bar> < 1/2"
      by (simp only: n)
  qed
  then show ?thesis by (simp only: v) (simp add: sgn_if)
qed

lemma round_double_overflow:
  assumes "2 ^ 1024 \<le> \<bar>x\<bar>"
  shows "round_double x = (if 0 < x then PlusInf else MinusInf)"
proof -
  have "(0::real) < 2 ^ 1024" by simp
  with assms have pos: "0 < \<bar>x\<bar>" by linarith
  then have nz: "x \<noteq> 0" by auto
  define k where "k = \<lfloor>log 2 \<bar>x\<bar>\<rfloor>"
  have kb: "2 powr real_of_int k \<le> \<bar>x\<bar> \<and> \<bar>x\<bar> < 2 powr real_of_int (k + 1)"
    using pos floor_log_eq_powr_iff [of "\<bar>x\<bar>" 2 k] by (simp add: k_def)
  have "(2::real) powr 1024 \<le> \<bar>x\<bar>" using assms by simp
  with kb have "(2::real) powr 1024 < 2 powr real_of_int (k + 1)" by linarith
  from powr_less_cancel [OF this] have "(1024::real) < real_of_int (k + 1)" by simp
  then have k: "1024 \<le> k" by linarith
  then have e: "ulp_exponent \<bar>x\<bar> = k - 52" by (simp add: ulp_exponent_def k_def)
  let ?u = "2 powr real_of_int (k - 52)"
  have "2 powr real_of_int k / ?u = 2 powr 52"
    by (simp add: powr_diff [symmetric])
  then have "of_int (2 ^ 52) \<le> \<bar>x\<bar> / ?u"
    using kb by (simp add: field_simps)
  then have "2 ^ 52 \<le> \<lfloor>\<bar>x\<bar> / ?u\<rfloor>" by (simp add: le_floor_iff)
  with round_half_even_floor [of "\<bar>x\<bar> / ?u"] have "2 ^ 52 \<le> round_half_even (\<bar>x\<bar> / ?u)"
    by linarith
  then have "real_of_int (2 ^ 52) \<le> of_int (round_half_even (\<bar>x\<bar> / ?u))"
    by (simp only: of_int_le_iff)
  then have "2 powr 52 * ?u \<le> of_int (round_half_even (\<bar>x\<bar> / ?u)) * ?u"
    by (intro mult_right_mono) simp_all
  moreover have "2 powr 52 * ?u = 2 powr real_of_int k"
  proof -
    have "(2::real) powr 52 * ?u = 2 powr (52 + real_of_int (k - 52))"
      by (simp only: powr_add)
    also have "52 + real_of_int (k - 52) = real_of_int k" by simp
    finally show ?thesis .
  qed
  moreover have "(2::real) ^ 1024 \<le> 2 powr real_of_int k"
  proof -
    have "(2::real) powr 1024 \<le> 2 powr real_of_int k" using k by (intro powr_mono) simp_all
    then show ?thesis by simp
  qed
  ultimately have "\<not> of_int (round_half_even (\<bar>x\<bar> / ?u)) * ?u < 2 ^ 1024" by linarith
  then show ?thesis
    using nz by (simp only: round_double_def Let_def e if_False)
qed

text \<open>Below half of the least subnormal \<open>2^-1074\<close> the result is zero.\<close>

lemma round_double_underflow:
  assumes "x \<noteq> 0" "\<bar>x\<bar> * 2 ^ 1074 < 1/2"
  shows "round_double x = Val 0"
proof -
  from assms have pos: "0 < \<bar>x\<bar>" by simp
  have "\<bar>x\<bar> < 1 / 2 ^ 1075" using assms(2) by (simp add: field_simps)
  also have "\<dots> = 2 powr (- 1075)" by (simp add: powr_minus_divide)
  finally have "log 2 \<bar>x\<bar> < - 1075" using pos by (simp add: log_less_iff)
  then have "\<lfloor>log 2 \<bar>x\<bar>\<rfloor> < - 1075" by (simp add: floor_less_iff)
  then have "\<lfloor>log 2 \<bar>x\<bar>\<rfloor> - 52 \<le> - 1074" by linarith
  then have e: "ulp_exponent \<bar>x\<bar> = - 1074" by (simp only: ulp_exponent_def max_absorb2)
  have u: "\<bar>x\<bar> / 2 powr real_of_int (- 1074) = \<bar>x\<bar> * 2 ^ 1074"
    by (simp add: powr_minus_divide)
  have "\<bar>\<bar>x\<bar> * 2 ^ 1074 - of_int 0\<bar> < 1/2" using assms(2) pos by simp
  then have r: "round_half_even (\<bar>x\<bar> * 2 ^ 1074) = 0" by (rule round_half_even_near)
  show ?thesis
    using assms(1) by (simp only: round_double_def Let_def e u r if_False) simp
qed

lemma round_double_one: "round_double 1 = Val 1"
  by (rule round_double_exact [where k = 0 and n = "2 ^ 52"]) (simp_all add: powr_minus_divide)

lemma round_double_7_4: "round_double (7 / 4) = Val (7 / 4)"
  by (rule round_double_exact [where k = 0 and n = "7 * 2 ^ 50"]) (simp_all add: powr_minus_divide)

lemma round_double_2_31: "round_double (2 ^ 31) = Val (2 ^ 31)"
  by (rule round_double_exact [where k = 31 and n = "2 ^ 52"]) (simp_all add: powr_minus_divide)

section \<open>Properties of the signal-to-noise ratio\<close>

text \<open>
  Claim C8. For every pair of signals of unequal length \<open>calculate_snr\<close> fails with the
  invalid-argument error, and the length check is the only validation: for every pair of
  signals of equal length it returns a value, whatever the samples are.
\<close>

theorem calculate_snr_validation:
  "(length signal \<noteq> length noisy \<longrightarrow> calculate_snr signal noisy = Inl InvalidArgument) \<and>
   (length signal = length noisy \<longrightarrow> (\<exists>v. calculate_snr signal noisy = Inr v))"
  by (simp add: calculate_snr_def Let_def)

theorem calculate_snr_validation_witness:
  "length [1, 2 :: real] \<noteq> length [1 :: real] \<and>
   calculate_snr [1, 2] [1] = Inl InvalidArgument \<and>
   length [3 :: real] = length [4 :: real] \<and>
   (\<exists>v. calculate_snr [3] [4] = Inr v)"
  using calculate_snr_validation [of "[1, 2]" "[1]"] calculate_snr_validation [of "[3]" "[4]"]
  by simp

lemma signal_power_of_sum:
  "signal_power_of signal =
     foldl fp_add (Val 0) (map (\<lambda>i. fp_mul (Val (signal ! i)) (Val (signal ! i))) [0..<length signal])"
  by (simp add: signal_power_of_def foldl_map)

lemma noise_power_of_sum:
  "noise_power_of signal noisy =
     foldl fp_add (Val 0)
       (map (\<lambda>i. fp_mul (fp_sub (Val (noisy ! i)) (Val (signal ! i)))
                      (fp_sub (Val (noisy ! i)) (Val (signal ! i)))) [0..<length signal])"
  by (simp add: noise_power_of_def foldl_map Let_def)

lemma noise_power_same: "noise_power_of x x = Val 0"
proof -
  have "foldl (\<lambda>noise_power i.
              let noise = fp_sub (Val (x ! i)) (Val (x ! i))
              in fp_add noise_power (fp_mul noise noise)) (Val 0) [0..<n] = Val 0" for n
    by (induction n) (simp_all add: round_double_zero)
  then show ?thesis by (simp add: noise_power_of_def)
qed

text \<open>
  Claim C7. For signals of equal length whose computed noise power, the sum in index
  order of the doubles \<open>(noisy[i] - signal[i])\<^sup>2\<close>, is zero, \<open>calculate_snr\<close> returns the
  capped value 100 dB; this is the case of \<open>calculate_snr x x\<close> for every \<open>x\<close>. Otherwise
  it returns \<open>10 * log10 (signal_power / noise_power)\<close>, computed in double arithmetic from
  the computed powers.
\<close>

theorem calculate_snr_value:
  fixes signal noisy x :: "real list"
  assumes len: "length signal = length noisy"
  shows "noise_power_of signal noisy =
           foldl fp_add (Val 0)
             (map (\<lambda>i. fp_mul (fp_sub (Val (noisy ! i)) (Val (signal ! i)))
                            (fp_sub (Val (noisy ! i)) (Val (signal ! i)))) [0..<length signal]) \<and>
         signal_power_of signal =
           foldl fp_add (Val 0)
             (map (\<lambda>i. fp_mul (Val (signal ! i)) (Val (signal ! i))) [0..<length signal]) \<and>
         (noise_power_of signal noisy = Val 0 \<longrightarrow>
            calculate_snr signal noisy = Inr (Val 100)) \<and>
         (noise_power_of signal noisy \<noteq> Val 0 \<longrightarrow>
            calculate_snr signal noisy =
              Inr (fp_mul (Val 10)
                     (fp_log10 (fp_div (signal_power_of signal) (noise_power_of signal noisy))))) \<and>
         calculate_snr x x = Inr (Val 100)"
proof -
  have a: "noise_power_of signal noisy = Val 0 \<longrightarrow>
      calculate_snr signal noisy = Inr (Val 100)"
    using len by (simp add: calculate_snr_def Let_def)
  have b: "noise_power_of signal noisy \<noteq> Val 0 \<longrightarrow> calculate_snr signal noisy =
      Inr (fp_mul (Val 10)
             (fp_log10 (fp_div (signal_power_of signal) (noise_power_of signal noisy))))"
    using len by (simp add: calculate_snr_def Let_def)
  have d: "calculate_snr x x = Inr (Val 100)"
    by (simp add: calculate_snr_def Let_def noise_power_same)
  from a b d noise_power_of_sum [of signal noisy] signal_power_of_sum [of signal]
  show ?thesis by blast
qed

lemma snr_example_powers:
  "noise_power_of [1] [2] = Val 1" "signal_power_of [1] = Val 1"
  by (simp_all add: noise_power_of_def signal_power_of_def round_double_one)

theorem calculate_snr_value_witness:
  "length [1 :: real] = length [1 :: real] \<and> noise_power_of [1] [1] = Val 0 \<and>
   calculate_snr [1] [1] = Inr (Val 100) \<and>
   noise_power_of [1] [2] \<noteq> Val 0 \<and> calculate_snr [1] [2] = Inr (Val 0)"
  using calculate_snr_value [of "[1]" "[1]" "[]"] calculate_snr_value [of "[1]" "[2]" "[]"]
  by (simp add: noise_power_same snr_example_powers round_double_one round_double_zero)

text \<open>
  Underflow and overflow decide the branch. With a noise of \<open>2^-600\<close> the square
  underflows to 0.0 and the capped value is returned; with a signal of \<open>2^700\<close> both
  powers overflow to infinity and the result is NaN.
\<close>

lemma round_double_pow2_m600: "round_double (1 / 2 ^ 600) = Val (1 / 2 ^ 600)"
  by (rule round_double_exact [where k = "- 600" and n = "2 ^ 52"])
     (simp_all add: powr_minus_divide powr_neg_numeral)

lemma round_double_pow2_m1200: "round_double (1 / 2 ^ 1200) = Val 0"
  by (rule round_double_underflow) simp_all

lemma underflow_example: "calculate_snr [0] [1 / 2 ^ 600] = Inr (Val 100)"
proof -
  have "(1 / 2 ^ 600 :: real) * (1 / 2 ^ 600) = 1 / 2 ^ 1200" by simp
  then have "noise_power_of [0] [1 / 2 ^ 600] = Val 0"
    by (simp add: noise_power_of_def Let_def round_double_pow2_m600 round_double_pow2_m1200
          round_double_zero del: power_numeral)
  then show ?thesis by (simp only: calculate_snr_def Let_def) simp
qed

lemma round_double_pow2_700: "round_double (- (2 ^ 700)) = Val (- (2 ^ 700))"
  by (rule round_double_exact [where k = 700 and n = "2 ^ 52"])
     (simp_all add: powr_minus_divide)

lemma round_double_pow2_1400: "round_double (2 ^ 1400) = PlusInf"
  using round_double_overflow [of "2 ^ 1400"] by simp

lemma overflow_example: "calculate_snr [2 ^ 700] [0] = Inr NaN"
proof -
  have sq: "(2 ^ 700 :: real) * 2 ^ 700 = 2 ^ 1400" by simp
  have sp: "signal_power_of [2 ^ 700] = PlusInf"
    by (simp add: signal_power_of_def sq round_double_pow2_1400 del: power_numeral)
  have np: "noise_power_of [2 ^ 700] [0] = PlusInf"
    by (simp add: noise_power_of_def Let_def round_double_pow2_700 sq round_double_pow2_1400
          del: power_numeral)
  show ?thesis by (simp only: calculate_snr_def Let_def sp np) simp
qed

section \<open>Properties of the peak detector\<close>









text \<open>
  Rounding decides a near tie. The second bin of \<open>[1, 1 + 2^-30 i]\<close> has the larger exact
  modulus, \<open>sqrt (1 + 2^-60)\<close>, but the double nearest to it is 1.0: the magnitudes tie,
  the first bin stays and the result is 0.0.
\<close>

lemma near_tie_magnitude: "round_double (cmod (Complex 1 (1 / 1073741824))) = Val 1"
proof -
  let ?x = "sqrt (1 + (1 / 1073741824)\<^sup>2)"
  have x: "cmod (Complex 1 (1 / 1073741824)) = ?x" by (simp add: cmod_def)
  have lo: "1 \<le> ?x" by simp
  have "1 + (1 / 1073741824)\<^sup>2 < (1 + 1 / 2 ^ 53 :: real)\<^sup>2"
    by (simp add: power2_eq_square field_simps)
  then have hi: "?x < 1 + 1 / 2 ^ 53" by (intro real_less_lsqrt) simp_all
  have ab: "\<bar>?x\<bar> = ?x" by simp
  have "round_double ?x = Val (sgn ?x * (of_int (2 ^ 52) * 2 powr real_of_int (0 - 52)))"
  proof (rule round_double_near)
    show "2 powr real_of_int 0 \<le> \<bar>?x\<bar>" using lo by (simp only: ab) simp
    show "\<bar>?x\<bar> < 2 powr real_of_int (0 + 1)" using hi by (simp only: ab) simp
    show "- 1022 \<le> (0::int)" by simp
    have "?x * 2 ^ 52 < (1 + 1 / 2 ^ 53) * 2 ^ 52" using hi by simp
    moreover have "1 * 2 ^ 52 \<le> ?x * 2 ^ 52" using lo by (intro mult_right_mono) simp_all
    ultimately show "\<bar>\<bar>?x\<bar> / 2 powr real_of_int (0 - 52) - of_int (2 ^ 52)\<bar> < 1/2"
      by (simp only: ab) (simp add: powr_neg_numeral abs_less_iff)
    show "of_int (2 ^ 52) * 2 powr real_of_int (0 - 52) < (2::real) ^ 1024"
      by (simp add: powr_neg_numeral)
  qed
  moreover have "sgn ?x = 1"
  proof -
    from lo have "0 < ?x" by linarith
    then show ?thesis by (rule sgn_pos)
  qed
  ultimately have "round_double ?x = Val 1" by (simp add: powr_neg_numeral)
  then show ?thesis by (simp only: x)
qed

lemma near_tie_keeps_first_bin:
  "find_peak_frequency [1, Complex 1 (1 / 1073741824)] 1000 = Finite 0"
proof -
  have "foldl (peak_step [1, Complex 1 (1 / 1073741824)]) (0, Val 0)
          [0..<length [1, Complex 1 (1 / 1073741824)]] = (0, Val 1)"
    by (simp add: peak_step_def round_double_one near_tie_magnitude del: cmod_def)
  then show ?thesis
    by (simp only: find_peak_frequency_def total_bins_of_def) simp
qed

text \<open>
  Claim C9. For every spectrum of exactly one bin and every sample rate the divisor
  \<open>(len - 1) * 2\<close> of \<open>find_peak_frequency\<close> is zero: the division of the bin by it is a
  division by zero, and the function returns no finite frequency (it returns NaN).
\<close>

theorem single_bin_divides_by_zero:
  "length spectrum = 1 \<Longrightarrow>
     total_bins_of spectrum = 0 \<and> find_peak_frequency spectrum sample_rate = NonFinite"
proof -
  assume l: "length spectrum = 1"
  then have ne: "spectrum \<noteq> []" by auto
  have tb: "total_bins_of spectrum = 0" using l by (simp add: total_bins_of_def)
  obtain b m where scan: "foldl (peak_step spectrum) (0, Val 0) [0..<length spectrum] = (b, m)"
    by (cases "foldl (peak_step spectrum) (0, Val 0) [0..<length spectrum]") auto
  with ne tb have "find_peak_frequency spectrum sample_rate = NonFinite"
    by (simp add: find_peak_frequency_def Let_def)
  with tb show ?thesis by simp
qed

theorem single_bin_divides_by_zero_witness:
  "length [5 :: complex] = 1 \<and> total_bins_of [5] = 0 \<and> find_peak_frequency [5] 1000 = NonFinite"
  using single_bin_divides_by_zero [of "[5]" 1000] by simp

section \<open>Properties of the Fourier transform\<close>

lemma collect_map_Inr: "collect (map (\<lambda>i. Inr (f i)) xs) = Inr (map f xs)"
  by (induction xs) simp_all

lemma read_cells_in_range:
  assumes "\<forall>i\<in>set xs. i < cells"
  shows "map (\<lambda>i. read_cell cells buf i) xs = map (\<lambda>i. Inr (buf i)) xs"
  using assms by (simp add: read_cell_def)

text \<open>
  For every input signal of length \<open>N \<ge> 1\<close> and every transform, \<open>compute_fft\<close> returns a
  spectrum of length \<open>N div 2 + 1\<close>: every cell it reads has been allocated.
\<close>

lemma compute_fft_length:
  assumes "1 \<le> length input"
  shows "\<exists>spectrum. compute_fft fftw input = Inr spectrum \<and>
           length spectrum = length input div 2 + 1"
proof -
  let ?N = "length input"
  from assms have "\<forall>i\<in>set [0..<?N div 2 + 1]. i < ?N" by auto
  then have "compute_fft fftw input =
      Inr (map (fftw (map (\<lambda>i. input ! i) [0..<?N])) [0..<?N div 2 + 1])"
    unfolding compute_fft_def Let_def
    by (simp only: read_cells_in_range collect_map_Inr)
  then show ?thesis by simp
qed

lemma compute_fft_length_example:
  "1 \<le> length [1, 2, 3, 4, 5 :: real] \<and>
   (\<exists>spectrum. compute_fft dft_r2c [1, 2, 3, 4, 5] = Inr spectrum \<and> length spectrum = 3)"
  using compute_fft_length [of "[1, 2, 3, 4, 5]" dft_r2c] by (simp add: numeral_3_eq_3)

text \<open>
  Claim C1. For every input signal of length \<open>N \<ge> 1\<close>, \<open>compute_fft\<close> returns a spectrum
  of length \<open>N div 2 + 1\<close>; for the empty input it returns the empty spectrum. The code
  does the first and fails at the second: it has no case for the empty input, runs the
  transform on no samples, constructs a result of \<open>0 / 2 + 1 = 1\<close> element and reads cell 0
  of a buffer of no cells, a read outside the buffer.
\<close>

theorem compute_fft_empty_input:
  "compute_fft dft_r2c [] = Inl OutOfBounds"
  by (simp add: compute_fft_def read_cell_def)

section \<open>Properties of the low-pass filter\<close>

text \<open>
  Claim C2 (amended). \<open>apply_lowpass_filter\<close> does not validate \<open>num_taps\<close>. For every
  input and every negative \<open>num_taps\<close> it fails with the length error of the vector
  constructor; for \<open>num_taps = 0\<close> it fails not at all and returns the all-zero signal of
  the length of the input.
\<close>

theorem apply_lowpass_filter_nonpositive_taps:
  "(num_taps < 0 \<longrightarrow> apply_lowpass_filter input cutoff_freq num_taps = Inl LengthError) \<and>
   apply_lowpass_filter input cutoff_freq 0 = Inr (replicate (length input) (Finite 0))"
  by (simp add: apply_lowpass_filter_def map_replicate_const)

theorem apply_lowpass_filter_nonpositive_taps_witness:
  "(-1 :: int) < 0 \<and> apply_lowpass_filter [1, 2] (1/4) (-1) = Inl LengthError"
  using apply_lowpass_filter_nonpositive_taps [of "-1" "[1, 2]" "1/4"] by simp

text \<open>
  The claim as stated fails at \<open>num_taps = 0\<close>, where a result is returned.
\<close>

theorem apply_lowpass_filter_zero_taps_counterexample:
  "apply_lowpass_filter [1, 2] (1/4) 0 = Inr [Finite 0, Finite 0]"
  by (simp add: apply_lowpass_filter_def upt_rec)

text \<open>
  The design stage never divides by zero: the sinc divisor \<open>pi * offset\<close> is used only
  where \<open>offset \<noteq> 0\<close>, and the window divisor \<open>num_taps - 1\<close> is zero only for
  \<open>num_taps = 1\<close>, where the single tap has offset 0. Hence the coefficients before
  normalisation and their sum are finite, unless the centre tap overflows.
\<close>

lemma center_tap_in_range:
  "\<bar>2 * cutoff_freq\<bar> < 2 ^ 1024 - 2 ^ 970 \<Longrightarrow> center_tap cutoff_freq = Finite (2 * cutoff_freq)"
  by (simp only: center_tap_def if_True)

lemma center_tap_unit_interval:
  assumes "0 < cutoff_freq" "cutoff_freq < 1"
  shows "center_tap cutoff_freq = Finite (2 * cutoff_freq)"
proof (rule center_tap_in_range)
  have "(2::real) ^ 970 * 2 \<le> 2 ^ 970 * 2 ^ 54" by (intro mult_left_mono) simp_all
  then have "(2::real) ^ 970 + 2 \<le> 2 ^ 1024" by (simp add: power_add [symmetric])
  then have "(2::real) \<le> 2 ^ 1024 - 2 ^ 970" by linarith
  with assms show "\<bar>2 * cutoff_freq\<bar> < 2 ^ 1024 - 2 ^ 970" by (simp add: abs_if)
qed

lemma design_coeff_finite:
  assumes "0 \<le> i" "i < num_taps" "\<bar>2 * cutoff_freq\<bar> < 2 ^ 1024 - 2 ^ 970"
  shows "\<exists>c. design_coeff cutoff_freq num_taps (num_taps div 2) i = Finite c"
proof (cases "i - num_taps div 2 = 0")
  case True
  then show ?thesis by (simp add: design_coeff_def center_tap_in_range [OF assms(3)])
next
  case False
  have "num_taps - 1 \<noteq> 0"
  proof
    assume "num_taps - 1 = 0"
    with assms have "i = 0" "num_taps = 1" by simp_all
    with False show False by simp
  qed
  with False show ?thesis
    by (simp add: design_coeff_def sinc_value_def hamming_window_def del: power_numeral)
qed

lemma coeff_sum_Finite: "coeff_sum (map Finite cs) = Finite (sum_list cs)"
proof -
  have "foldl (\<lambda>total coeff. dadd total coeff) (Finite a) (map Finite cs) = Finite (a + sum_list cs)" for a
    by (induction cs arbitrary: a) (simp_all add: add.assoc)
  from this [of 0] show ?thesis by (simp add: coeff_sum_def)
qed

lemma raw_coeffs_finite:
  assumes "\<bar>2 * cutoff_freq\<bar> < 2 ^ 1024 - 2 ^ 970"
  shows "\<exists>cs. map (\<lambda>i. design_coeff cutoff_freq num_taps (num_taps div 2) (int i))
               [0..<nat num_taps] = map Finite cs"
proof -
  let ?f = "\<lambda>i. design_coeff cutoff_freq num_taps (num_taps div 2) (int i)"
  have "\<forall>i<nat num_taps. \<exists>c. ?f i = Finite c"
    using design_coeff_finite [OF _ _ assms, of _ num_taps] by auto
  then obtain g where g: "\<forall>i<nat num_taps. ?f i = Finite (g i)"
    by metis
  then have "map ?f [0..<nat num_taps] = map Finite (map g [0..<nat num_taps])"
    by simp
  then show ?thesis ..
qed

lemma coeff_sum_finite:
  assumes "\<bar>2 * cutoff_freq\<bar> < 2 ^ 1024 - 2 ^ 970"
  shows "\<exists>s. coeff_sum (map (\<lambda>i. design_coeff cutoff_freq num_taps (num_taps div 2) (int i))
                     [0..<nat num_taps]) = Finite s"
proof -
  from raw_coeffs_finite [OF assms, of num_taps] obtain cs where
    "map (\<lambda>i. design_coeff cutoff_freq num_taps (num_taps div 2) (int i)) [0..<nat num_taps]
       = map Finite cs" ..
  then show ?thesis by (simp add: coeff_sum_Finite)
qed

lemma length_filter_coeffs: "length (filter_coeffs cutoff_freq num_taps) = nat num_taps"
  by (simp add: filter_coeffs_def normalize_coeffs_def Let_def)

lemma dadd_zero_right: "dadd acc (Finite 0) = acc"
  by (cases acc) simp_all

lemma dmul_commute: "dmul a b = dmul b a"
  by (cases a; cases b) simp_all

text \<open>
  The inner loop, which skips the taps that fall outside the input, computes the sum in
  which such a tap contributes zero: in double arithmetic, in the order of the indices,
  and as a sum of reals when the coefficients are finite.
\<close>

lemma mac_loop_terms:
  "foldl (mac input coeffs center i) acc [0..<m] =
   foldl dadd acc
     (map (\<lambda>j. if 0 \<le> i - center + int j \<and> i - center + int j < int (length input)
               then dmul (coeffs ! j) (Finite (input ! nat (i - center + int j)))
               else Finite 0) [0..<m])"
  by (induction m) (simp_all add: mac_def Let_def dadd_zero_right dmul_commute)

lemma mac_loop_finite:
  assumes "m \<le> length cs"
  shows "foldl (mac input (map Finite cs) center i) (Finite 0) [0..<m] =
   Finite (\<Sum>j<m. cs ! j *
             (if 0 \<le> i - center + int j \<and> i - center + int j < int (length input)
              then input ! nat (i - center + int j) else 0))"
  using assms by (induction m) (simp_all add: mac_def Let_def mult.commute)

text \<open>A three-tap filter at half the band: the sinc vanishes at both outer taps.\<close>

lemma filter_coeffs_3_half: "filter_coeffs (1/2) 3 = map Finite [0, 1, 0]"
proof -
  have "center_tap (1/2) = Finite (2 * (1/2))"
    by (rule center_tap_unit_interval) simp_all
  then show ?thesis
    by (simp add: filter_coeffs_def normalize_coeffs_def coeff_sum_def design_coeff_def
          sinc_value_def hamming_window_def upt_rec)
qed

text \<open>
  Claim C6. For every input signal and every \<open>num_taps \<ge> 0\<close> (all valid tap counts),
  \<open>apply_lowpass_filter\<close> returns a signal of exactly the length of the input (the empty
  signal for the empty input) with
  \<open>output[n] = \<Sum>j<num_taps. coeff[j] * input[n - center + j]\<close>, \<open>center = num_taps div 2\<close>,
  where an index outside the input contributes zero. The sum is the one of the code's
  doubles, taken in index order; when the normalised coefficients are finite it is the
  sum of real numbers.
\<close>

theorem apply_lowpass_filter_convolution:
  assumes "0 \<le> num_taps"
  shows "\<exists>output. apply_lowpass_filter input cutoff_freq num_taps = Inr output \<and>
     length output = length input \<and>
     (\<forall>n<length input.
        output ! n =
          foldl dadd (Finite 0)
            (map (\<lambda>j. if 0 \<le> int n - num_taps div 2 + int j \<and>
                          int n - num_taps div 2 + int j < int (length input)
                       then dmul (filter_coeffs cutoff_freq num_taps ! j)
                              (Finite (input ! nat (int n - num_taps div 2 + int j)))
                       else Finite 0)
               [0..<nat num_taps])) \<and>
     (\<forall>coeff. filter_coeffs cutoff_freq num_taps = map Finite coeff \<longrightarrow>
        (\<forall>n<length input.
           output ! n =
             Finite (\<Sum>j<nat num_taps. coeff ! j *
               (if 0 \<le> int n - num_taps div 2 + int j \<and>
                   int n - num_taps div 2 + int j < int (length input)
                then input ! nat (int n - num_taps div 2 + int j) else 0))))"
proof -
  let ?coeffs = "filter_coeffs cutoff_freq num_taps"
  let ?center = "num_taps div 2"
  let ?out = "map (\<lambda>i. foldl (mac input ?coeffs ?center (int i)) (Finite 0) [0..<nat num_taps])
                [0..<length input]"
  from assms have ret: "apply_lowpass_filter input cutoff_freq num_taps = Inr ?out"
    by (simp add: apply_lowpass_filter_def Let_def)
  have len: "length ?out = length input" by simp
  have nth: "?out ! n = foldl (mac input ?coeffs ?center (int n)) (Finite 0) [0..<nat num_taps]"
    if "n < length input" for n
    using that by simp
  have general: "\<forall>n<length input. ?out ! n =
          foldl dadd (Finite 0)
            (map (\<lambda>j. if 0 \<le> int n - ?center + int j \<and>
                          int n - ?center + int j < int (length input)
                       then dmul (?coeffs ! j) (Finite (input ! nat (int n - ?center + int j)))
                       else Finite 0)
               [0..<nat num_taps])"
  proof (intro allI impI)
    fix n assume "n < length input"
    from nth [OF this] show "?out ! n =
          foldl dadd (Finite 0)
            (map (\<lambda>j. if 0 \<le> int n - ?center + int j \<and>
                          int n - ?center + int j < int (length input)
                       then dmul (?coeffs ! j) (Finite (input ! nat (int n - ?center + int j)))
                       else Finite 0)
               [0..<nat num_taps])"
      by (simp only: mac_loop_terms)
  qed
  have finite: "\<forall>coeff. ?coeffs = map Finite coeff \<longrightarrow>
        (\<forall>n<length input.
           ?out ! n =
             Finite (\<Sum>j<nat num_taps. coeff ! j *
               (if 0 \<le> int n - ?center + int j \<and> int n - ?center + int j < int (length input)
                then input ! nat (int n - ?center + int j) else 0)))"
  proof (intro allI impI)
    fix coeff n
    assume c: "?coeffs = map Finite coeff" and n: "n < length input"
    from c have "length coeff = nat num_taps"
      using length_filter_coeffs [of cutoff_freq num_taps] by simp
    then have "nat num_taps \<le> length coeff" by simp
    from mac_loop_finite [OF this] c nth [OF n]
    show "?out ! n =
             Finite (\<Sum>j<nat num_taps. coeff ! j *
               (if 0 \<le> int n - ?center + int j \<and> int n - ?center + int j < int (length input)
                then input ! nat (int n - ?center + int j) else 0))"
      by simp
  qed
  from ret len general finite show ?thesis by blast
qed

theorem apply_lowpass_filter_convolution_witness:
  "(0::int) \<le> 3 \<and> filter_coeffs (1/2) 3 = map Finite [0, 1, 0] \<and>
   (\<exists>output. apply_lowpass_filter [1, 2, 5] (1/2) 3 = Inr output \<and>
      length output = length [1, 2, 5 :: real] \<and>
      output ! 0 = Finite 1 \<and> output ! 1 = Finite 2 \<and> output ! 2 = Finite 5)"
proof -
  from apply_lowpass_filter_convolution [of 3 "[1, 2, 5]" "1/2"]
  obtain out where
    ret: "apply_lowpass_filter [1, 2, 5] (1/2) 3 = Inr out" and
    len: "length out = length [1, 2, 5 :: real]" and
    fin: "\<forall>coeff. filter_coeffs (1/2) 3 = map Finite coeff \<longrightarrow>
        (\<forall>n<length [1, 2, 5 :: real].
           out ! n =
             Finite (\<Sum>j<nat 3. coeff ! j *
               (if 0 \<le> int n - 3 div 2 + int j \<and>
                   int n - 3 div 2 + int j < int (length [1, 2, 5 :: real])
                then [1, 2, 5] ! nat (int n - 3 div 2 + int j) else 0)))"
    by auto
  from fin filter_coeffs_3_half
  have vals: "\<forall>n<length [1, 2, 5 :: real].
           out ! n =
             Finite (\<Sum>j<nat 3. [0, 1, 0] ! j *
               (if 0 \<le> int n - 3 div 2 + int j \<and>
                   int n - 3 div 2 + int j < int (length [1, 2, 5 :: real])
                then [1, 2, 5] ! nat (int n - 3 div 2 + int j) else 0))"
    by blast
  have "out ! 0 = Finite 1" "out ! 1 = Finite 2" "out ! 2 = Finite 5"
    using vals by (simp_all add: numeral_3_eq_3 lessThan_Suc)
  with ret len filter_coeffs_3_half show ?thesis by simp
qed

lemma filter_coeffs_one_tap:
  assumes "cutoff_freq \<noteq> 0" "\<bar>2 * cutoff_freq\<bar> < 2 ^ 1024 - 2 ^ 970"
  shows "filter_coeffs cutoff_freq 1 = [Finite 1]"
  using assms(1)
  by (simp add: filter_coeffs_def normalize_coeffs_def coeff_sum_def design_coeff_def
        center_tap_in_range [OF assms(2)] del: power_numeral)

lemma map_Finite_nth: "map (\<lambda>i. Finite (xs ! i)) [0..<length xs] = map Finite xs"
  by (rule nth_equalityI) simp_all

text \<open>
  Claim C10 (amended). For every input and every non-zero \<open>cutoff_freq\<close> whose double
  \<open>2.0 * cutoff_freq\<close> is finite (a magnitude of \<open>2 * cutoff_freq\<close> below \<open>2^1024 - 2^970\<close>,
  that is every double \<open>cutoff_freq\<close> of magnitude below \<open>2^1023\<close>), \<open>apply_lowpass_filter\<close>
  with \<open>num_taps = 1\<close> is the identity: the single coefficient normalises to 1 and the
  output is the input, sample for sample. The only tap index has offset 0 and takes the
  centre branch; the Hamming window, which for \<open>num_taps = 1\<close> divides by zero at every
  index, is not evaluated.
\<close>

theorem single_tap_identity:
  assumes "cutoff_freq \<noteq> 0" and "\<bar>2 * cutoff_freq\<bar> < 2 ^ 1024 - 2 ^ 970"
  shows "filter_coeffs cutoff_freq 1 = [Finite 1] \<and>
         apply_lowpass_filter input cutoff_freq 1 = Inr (map Finite input) \<and>
         (\<forall>i\<in>set [0..<nat 1]. int i - 1 div 2 = 0 \<and>
             design_coeff cutoff_freq 1 (1 div 2) (int i) = Finite (2 * cutoff_freq)) \<and>
         (\<forall>i. hamming_window i 1 = NonFinite)"
proof -
  note c = filter_coeffs_one_tap [OF assms]
  have "apply_lowpass_filter input cutoff_freq 1 =
      Inr (map (\<lambda>i. Finite (input ! i)) [0..<length input])"
  proof -
    have "foldl (mac input [Finite 1] 0 (int i)) (Finite 0) [0..<Suc 0] = Finite (input ! i)"
      if "i < length input" for i
      using that by (simp add: mac_def)
    then show ?thesis
      by (simp add: apply_lowpass_filter_def c)
  qed
  then have a: "apply_lowpass_filter input cutoff_freq 1 = Inr (map Finite input)"
    by (simp only: map_Finite_nth)
  have b: "\<forall>i\<in>set [0..<nat 1]. int i - 1 div 2 = 0 \<and>
             design_coeff cutoff_freq 1 (1 div 2) (int i) = Finite (2 * cutoff_freq)"
    by (simp add: design_coeff_def center_tap_in_range [OF assms(2)] del: power_numeral)
  have w: "\<forall>i. hamming_window i 1 = NonFinite"
    by (simp add: hamming_window_def)
  from c a b w show ?thesis by blast
qed

theorem single_tap_identity_witness:
  "(1/4 :: real) \<noteq> 0 \<and> \<bar>2 * (1/4 :: real)\<bar> < 2 ^ 1024 - 2 ^ 970 \<and>
   filter_coeffs (1/4) 1 = [Finite 1] \<and>
   apply_lowpass_filter [3, -2, 7] (1/4) 1 = Inr [Finite 3, Finite (-2), Finite 7] \<and>
   design_coeff (1/4) 1 (1 div 2) 0 = Finite (1/2)"
proof -
  have r: "\<bar>2 * (1/4 :: real)\<bar> < 2 ^ 1024 - 2 ^ 970" by simp
  from single_tap_identity [of "1/4" "[3, -2, 7]", OF _ r] r show ?thesis by simp
qed

text \<open>
  The claim as stated fails at \<open>cutoff_freq = 2^1023\<close>, a finite double: the centre tap
  \<open>2.0 * cutoff_freq\<close> overflows to infinity, the coefficient \<open>inf / inf\<close> is NaN, and so is
  every output sample.
\<close>

theorem single_tap_overflow_counterexample:
  "(2 ^ 1023 :: real) \<noteq> 0 \<and>
   filter_coeffs (2 ^ 1023) 1 = [NonFinite] \<and>
   apply_lowpass_filter [3, -2, 7] (2 ^ 1023) 1 = Inr [NonFinite, NonFinite, NonFinite]"
proof -
  have "\<not> \<bar>2 * (2 ^ 1023 :: real)\<bar> < 2 ^ 1024 - 2 ^ 970" by simp
  then have t: "center_tap (2 ^ 1023) = NonFinite" by (simp only: center_tap_def if_False)
  have c: "filter_coeffs (2 ^ 1023) 1 = [NonFinite]"
    by (simp add: filter_coeffs_def normalize_coeffs_def coeff_sum_def design_coeff_def t
          del: power_numeral)
  have "apply_lowpass_filter [3, -2, 7] (2 ^ 1023) 1 = Inr [NonFinite, NonFinite, NonFinite]"
    by (simp add: apply_lowpass_filter_def c mac_def upt_rec del: power_numeral)
  with c show ?thesis by simp
qed

text \<open>
  Normalisation in exact arithmetic: when the sum of the designed coefficients is not
  zero, the normalised coefficients are finite and their sum is 1.
\<close>

lemma normalize_coeffs_finite:
  assumes "sum_list cs \<noteq> 0"
  shows "normalize_coeffs (map Finite cs) = map Finite (map (\<lambda>c. c / sum_list cs) cs)"
  using assms by (simp add: normalize_coeffs_def coeff_sum_Finite)

lemma normalized_sum_one:
  assumes "sum_list cs \<noteq> 0"
  shows "sum_list (map (\<lambda>c. c / sum_list cs) cs) = (1::real)"
proof -
  have "sum_list (map (\<lambda>c. c / s) cs) = sum_list cs / s" for s :: real
    by (induction cs) (simp_all add: add_divide_distrib)
  with assms show ?thesis by simp
qed

section \<open>Unity gain of the normalised coefficients\<close>

text \<open>
  A differentiable function on \<open>[a, b]\<close> that is at most 0 at both ends and at every
  interior critical point is at most 0 on the whole interval.
\<close>

lemma max_principle:
  fixes g g' :: "real \<Rightarrow> real"
  assumes ab: "a < b"
    and der: "\<And>x. (g has_real_derivative g' x) (at x)"
    and ends: "g a \<le> 0" "g b \<le> 0"
    and crit: "\<And>x. a < x \<Longrightarrow> x < b \<Longrightarrow> g' x = 0 \<Longrightarrow> g x \<le> 0"
    and x: "a \<le> x" "x \<le> b"
  shows "g x \<le> 0"
proof -
  have cont: "\<forall>x. a \<le> x \<and> x \<le> b \<longrightarrow> isCont g x"
    using der DERIV_isCont by blast
  from isCont_eq_Ub [OF less_imp_le [OF ab] cont]
  obtain M x0 where M: "\<forall>x. a \<le> x \<and> x \<le> b \<longrightarrow> g x \<le> M"
    and x0: "a \<le> x0" "x0 \<le> b" "g x0 = M"
    by blast
  have "M \<le> 0"
  proof (cases "x0 = a \<or> x0 = b")
    case True
    with ends x0 show ?thesis by auto
  next
    case False
    with x0 have inner: "a < x0" "x0 < b" by simp_all
    define d where "d = min (x0 - a) (b - x0)"
    from inner have d: "0 < d" by (simp add: d_def)
    have "\<forall>y. \<bar>x0 - y\<bar> < d \<longrightarrow> g y \<le> g x0"
    proof (intro allI impI)
      fix y assume "\<bar>x0 - y\<bar> < d"
      then have "a \<le> y \<and> y \<le> b" by (simp add: d_def abs_less_iff)
      with M x0 show "g y \<le> g x0" by simp
    qed
    from DERIV_local_max [OF der d this] have "g' x0 = 0" .
    from crit [OF inner this] x0 show ?thesis by simp
  qed
  with M x show ?thesis by force
qed

lemma sine_sum_deriv:
  "((\<lambda>x. \<Sum>k=1..n. sin (real k * x) / real k) has_real_derivative
      (\<Sum>k=1..n. cos (real k * x))) (at x)"
proof (rule DERIV_sum)
  fix k assume "k \<in> {1..n}"
  then have k: "real k \<noteq> 0" by simp
  show "((\<lambda>x. sin (real k * x) / real k) has_real_derivative cos (real k * x)) (at x)"
    using k by (auto intro!: derivative_eq_intros)
qed

lemma dirichlet_kernel:
  "2 * sin (x / 2) * (\<Sum>k=1..n. cos (real k * x)) = sin ((real n + 1/2) * x) - sin (x / 2)"
proof (induction n)
  case 0
  show ?case by simp
next
  case (Suc n)
  have "2 * sin (x / 2) * cos (real (Suc n) * x) =
      sin (real (Suc n) * x + x / 2) - sin (real (Suc n) * x - x / 2)"
    by (simp add: sin_add sin_diff)
  moreover have "real (Suc n) * x + x / 2 = (real (Suc n) + 1/2) * x"
    by (simp add: algebra_simps)
  moreover have "real (Suc n) * x - x / 2 = (real n + 1/2) * x"
    by (simp add: algebra_simps)
  ultimately have "2 * sin (x / 2) * cos (real (Suc n) * x) =
      sin ((real (Suc n) + 1/2) * x) - sin ((real n + 1/2) * x)"
    by simp
  with Suc.IH show ?case
    by (simp add: algebra_simps)
qed

lemma half_angle_split:
  "sin ((real n + 1/2) * x) = sin (real n * x) * cos (x / 2) + cos (real n * x) * sin (x / 2)"
proof -
  have "(real n + 1/2) * x = real n * x + x / 2" by (simp add: algebra_simps)
  then show ?thesis by (simp add: sin_add)
qed

lemma critical_sin_nonneg:
  assumes x: "0 < x" "x < pi" and crit: "(\<Sum>k=1..n. cos (real k * x)) = 0"
  shows "0 \<le> sin (real n * x)"
proof -
  have s: "0 < sin (x / 2)" using x by (intro sin_gt_zero) simp_all
  have c: "0 < cos (x / 2)" using x by (intro cos_gt_zero_pi) simp_all
  from dirichlet_kernel [of x n] crit have "sin ((real n + 1/2) * x) = sin (x / 2)" by simp
  with half_angle_split [of n x]
  have "sin (real n * x) * cos (x / 2) = sin (x / 2) * (1 - cos (real n * x))"
    by (simp add: algebra_simps)
  moreover have "0 \<le> sin (x / 2) * (1 - cos (real n * x))"
    using s by (intro mult_nonneg_nonneg) simp_all
  ultimately have "0 \<le> sin (real n * x) * cos (x / 2)" by simp
  with c show ?thesis by (simp add: zero_le_mult_iff)
qed

lemma critical_sin_nonpos:
  assumes x: "0 < x" "x < pi" and crit: "(\<Sum>k=1..n. cos (real k * x)) + 1 = 0"
  shows "sin (real n * x) \<le> 0"
proof -
  have s: "0 < sin (x / 2)" using x by (intro sin_gt_zero) simp_all
  have c: "0 < cos (x / 2)" using x by (intro cos_gt_zero_pi) simp_all
  from crit have "(\<Sum>k=1..n. cos (real k * x)) = - 1" by simp
  with dirichlet_kernel [of x n] have "sin ((real n + 1/2) * x) = - sin (x / 2)" by simp
  with half_angle_split [of n x]
  have "sin (real n * x) * cos (x / 2) = - (sin (x / 2) * (1 + cos (real n * x)))"
    by (simp add: algebra_simps)
  moreover have "0 \<le> sin (x / 2) * (1 + cos (real n * x))"
  proof -
    have "- 1 \<le> cos (real n * x)" by simp
    then have "0 \<le> 1 + cos (real n * x)" by linarith
    with s show ?thesis by (intro mult_nonneg_nonneg) simp_all
  qed
  ultimately have "sin (real n * x) * cos (x / 2) \<le> 0" by simp
  with c show ?thesis by (simp add: mult_le_0_iff)
qed

text \<open>
  The partial sums \<open>\<Sum>k=1..n. sin (k x) / k\<close> are non-negative on \<open>[0, pi]\<close> (the
  Fejer-Jackson inequality): by induction on \<open>n\<close>, since at an interior critical
  point the last term is non-negative.
\<close>
lemma sine_sum_nonneg:
  "0 \<le> x \<Longrightarrow> x \<le> pi \<Longrightarrow> 0 \<le> (\<Sum>k=1..n. sin (real k * x) / real k)"
proof (induction n arbitrary: x)
  case 0
  show ?case by simp
next
  case (Suc n)
  let ?g = "\<lambda>x. - (\<Sum>k=1..Suc n. sin (real k * x) / real k)"
  let ?g' = "\<lambda>x. - (\<Sum>k=1..Suc n. cos (real k * x))"
  have "?g x \<le> 0"
  proof (rule max_principle [where g = ?g and g' = ?g' and a = 0 and b = pi])
    show "0 < pi" by simp
    show "(?g has_real_derivative ?g' y) (at y)" for y
      by (rule DERIV_minus) (rule sine_sum_deriv)
    show "?g 0 \<le> 0" by simp
    show "?g pi \<le> 0" by simp
    show "?g y \<le> 0" if y: "0 < y" "y < pi" and crit: "?g' y = 0" for y
    proof -
      from crit have "(\<Sum>k=1..Suc n. cos (real k * y)) = 0" by simp
      from critical_sin_nonneg [OF y this] have "0 \<le> sin (real (Suc n) * y)" .
      then have "0 \<le> sin (real (Suc n) * y) / real (Suc n)" by simp
      moreover from Suc.IH [of y] y have "0 \<le> (\<Sum>k=1..n. sin (real k * y) / real k)" by simp
      ultimately show ?thesis by simp
    qed
    show "0 \<le> x" "x \<le> pi" by fact+
  qed
  then show ?case by simp
qed

text \<open>
  The same sums are at most \<open>pi - x\<close> on \<open>[0, pi]\<close>: at an interior critical point of
  the difference the last term is non-positive.
\<close>
lemma sine_sum_upper:
  "0 \<le> x \<Longrightarrow> x \<le> pi \<Longrightarrow> (\<Sum>k=1..n. sin (real k * x) / real k) \<le> pi - x"
proof (induction n arbitrary: x)
  case 0
  then show ?case by simp
next
  case (Suc n)
  let ?g = "\<lambda>x. (\<Sum>k=1..Suc n. sin (real k * x) / real k) + x - pi"
  let ?g' = "\<lambda>x. (\<Sum>k=1..Suc n. cos (real k * x)) + 1"
  have "?g x \<le> 0"
  proof (rule max_principle [where g = ?g and g' = ?g' and a = 0 and b = pi])
    show "0 < pi" by simp
    show "(?g has_real_derivative ?g' y) (at y)" for y
      by (auto intro!: derivative_eq_intros sine_sum_deriv)
    show "?g 0 \<le> 0" by simp
    show "?g pi \<le> 0" by simp
    show "?g y \<le> 0" if y: "0 < y" "y < pi" and crit: "?g' y = 0" for y
    proof -
      from critical_sin_nonpos [OF y crit] have "sin (real (Suc n) * y) \<le> 0" .
      then have "sin (real (Suc n) * y) / real (Suc n) \<le> 0"
        by (simp add: divide_nonpos_pos)
      moreover from Suc.IH [of y] y have "(\<Sum>k=1..n. sin (real k * y) / real k) \<le> pi - y" by simp
      ultimately show ?thesis by simp
    qed
    show "0 \<le> x" "x \<le> pi" by fact+
  qed
  then show ?case by simp
qed

text \<open>
  Summation by parts: with non-increasing non-negative weights, a weighted sum is bounded
  by the first weight times a bound of the partial sums.
\<close>

lemma abel_identity:
  fixes w a :: "nat \<Rightarrow> real"
  shows "(\<Sum>k=1..Suc M. w k * a k) =
     w (Suc M) * (\<Sum>k=1..Suc M. a k) + (\<Sum>j=1..M. (w j - w (Suc j)) * (\<Sum>k=1..j. a k))"
proof (induction M)
  case 0
  show ?case by simp
next
  case (Suc M)
  have "(\<Sum>k=1..Suc (Suc M). w k * a k) =
      (\<Sum>k=1..Suc M. w k * a k) + w (Suc (Suc M)) * a (Suc (Suc M))"
    by simp
  also have "\<dots> = w (Suc M) * (\<Sum>k=1..Suc M. a k) +
      (\<Sum>j=1..M. (w j - w (Suc j)) * (\<Sum>k=1..j. a k)) + w (Suc (Suc M)) * a (Suc (Suc M))"
    by (simp only: Suc.IH)
  also have "\<dots> = w (Suc (Suc M)) * (\<Sum>k=1..Suc (Suc M). a k) +
      (\<Sum>j=1..Suc M. (w j - w (Suc j)) * (\<Sum>k=1..j. a k))"
    by (simp add: algebra_simps)
  finally show ?case .
qed

lemma telescope_weights:
  fixes w :: "nat \<Rightarrow> real"
  shows "(\<Sum>j=1..M. w j - w (Suc j)) = w 1 - w (Suc M)"
  by (induction M) simp_all

lemma abel_upper:
  fixes w a :: "nat \<Rightarrow> real"
  assumes mono: "\<And>j. 1 \<le> j \<Longrightarrow> j \<le> M \<Longrightarrow> w (Suc j) \<le> w j"
    and nonneg: "0 \<le> w (Suc M)"
    and bound: "\<And>j. 1 \<le> j \<Longrightarrow> j \<le> Suc M \<Longrightarrow> (\<Sum>k=1..j. a k) \<le> hi"
  shows "(\<Sum>k=1..Suc M. w k * a k) \<le> w 1 * hi"
proof -
  have "w (Suc M) * (\<Sum>k=1..Suc M. a k) \<le> w (Suc M) * hi"
    using nonneg bound [of "Suc M"] by (intro mult_left_mono) simp_all
  moreover have "(\<Sum>j=1..M. (w j - w (Suc j)) * (\<Sum>k=1..j. a k)) \<le>
      (\<Sum>j=1..M. (w j - w (Suc j)) * hi)"
  proof (rule sum_mono)
    fix j assume "j \<in> {1..M}"
    then have j: "1 \<le> j" "j \<le> M" by simp_all
    from mono [OF j] have "0 \<le> w j - w (Suc j)" by simp
    moreover from bound [of j] j have "(\<Sum>k=1..j. a k) \<le> hi" by simp
    ultimately show "(w j - w (Suc j)) * (\<Sum>k=1..j. a k) \<le> (w j - w (Suc j)) * hi"
      by (rule mult_left_mono [rotated])
  qed
  moreover have "(\<Sum>j=1..M. (w j - w (Suc j)) * hi) = (w 1 - w (Suc M)) * hi"
    by (simp only: sum_distrib_right [symmetric] telescope_weights)
  ultimately have "(\<Sum>k=1..Suc M. w k * a k) \<le> w (Suc M) * hi + (w 1 - w (Suc M)) * hi"
    by (simp only: abel_identity)
  then show ?thesis by (simp add: algebra_simps)
qed

lemma weighted_sine_sum_bounds:
  fixes w :: "nat \<Rightarrow> real"
  assumes mono: "\<And>j. 1 \<le> j \<Longrightarrow> j \<le> M \<Longrightarrow> w (Suc j) \<le> w j"
    and nonneg: "0 \<le> w (Suc M)" and le1: "w 1 \<le> 1"
    and x: "0 \<le> x" "x \<le> pi"
  shows "0 \<le> (\<Sum>k=1..Suc M. w k * (sin (real k * x) / real k))"
    and "(\<Sum>k=1..Suc M. w k * (sin (real k * x) / real k)) \<le> pi - x"
proof -
  have "(\<Sum>k=1..Suc M. w k * (- (sin (real k * x) / real k))) \<le> w 1 * 0"
  proof (rule abel_upper [OF mono nonneg])
    fix j
    have "(\<Sum>k=1..j. - (sin (real k * x) / real k)) = - (\<Sum>k=1..j. sin (real k * x) / real k)"
      by (simp add: sum_negf)
    with sine_sum_nonneg [OF x, of j] show "(\<Sum>k=1..j. - (sin (real k * x) / real k)) \<le> 0"
      by simp
  qed
  then have "- (\<Sum>k=1..Suc M. w k * (sin (real k * x) / real k)) \<le> 0"
    by (simp add: sum_negf)
  then show "0 \<le> (\<Sum>k=1..Suc M. w k * (sin (real k * x) / real k))" by simp
next
  have "(\<Sum>k=1..Suc M. w k * (sin (real k * x) / real k)) \<le> w 1 * (pi - x)"
  proof (rule abel_upper [OF mono nonneg])
    show "(\<Sum>k=1..j. sin (real k * x) / real k) \<le> pi - x" for j
      by (rule sine_sum_upper [OF x])
  qed
  also have "\<dots> \<le> 1 * (pi - x)"
    using le1 x by (intro mult_right_mono) simp_all
  finally show "(\<Sum>k=1..Suc M. w k * (sin (real k * x) / real k)) \<le> pi - x" by simp
qed

text \<open>
  The Hamming weights \<open>0.54 + 0.46 * cos (pi k / h)\<close> of the taps at distance \<open>k\<close> from
  the centre decrease from at most 1 to 0.08, hence the sum of the designed coefficients
  of a filter of \<open>2 h + 1\<close> taps is positive for every cutoff in \<open>(0, 1)\<close>.
\<close>

lemma hamming_weight_mono:
  assumes "j \<le> M"
  shows "0.54 + 0.46 * cos (pi * real (Suc j) / real (Suc M)) \<le>
         0.54 + 0.46 * cos (pi * real j / real (Suc M))"
proof -
  have a: "0 \<le> pi * real j / real (Suc M)" by simp
  have b: "pi * real j / real (Suc M) \<le> pi * real (Suc j) / real (Suc M)"
    by (intro divide_right_mono mult_left_mono) simp_all
  have "real (Suc j) / real (Suc M) \<le> 1" using assms by simp
  then have "pi * (real (Suc j) / real (Suc M)) \<le> pi * 1"
    by (intro mult_left_mono) simp_all
  then have c: "pi * real (Suc j) / real (Suc M) \<le> pi" by simp
  from cos_monotone_0_pi_le [OF a b c] show ?thesis by simp
qed

lemma sin_reflect: "sin (real k * (2 * pi - y)) = - sin (real k * y)"
proof -
  have "real k * (2 * pi - y) = 2 * real k * pi - real k * y" by (simp add: algebra_simps)
  then show ?thesis by (simp add: sin_diff)
qed

lemma dc_gain_positive:
  fixes c :: real
  assumes c: "0 < c" "c < 1"
  shows "0 < 2 * c + 2 / pi *
           (\<Sum>k=1..Suc M. (0.54 + 0.46 * cos (pi * real k / real (Suc M))) *
                            (sin (real k * (2 * pi * c)) / real k))"
proof -
  define w where "w = (\<lambda>k. 0.54 + 0.46 * cos (pi * real k / real (Suc M)))"
  have mono: "\<And>j. 1 \<le> j \<Longrightarrow> j \<le> M \<Longrightarrow> w (Suc j) \<le> w j"
    unfolding w_def by (rule hamming_weight_mono)
  have nonneg: "0 \<le> w (Suc M)" by (simp add: w_def)
  have le1: "w 1 \<le> 1"
  proof -
    have "cos (pi * real 1 / real (Suc M)) \<le> 1" by (rule cos_le_one)
    then have "0.54 + 0.46 * cos (pi * real 1 / real (Suc M)) \<le> 0.54 + 0.46 * 1"
      by (intro add_left_mono mult_left_mono) simp_all
    then show ?thesis unfolding w_def by simp
  qed
  let ?S = "\<lambda>x. \<Sum>k=1..Suc M. w k * (sin (real k * x) / real k)"
  have "0 < 2 * c + 2 / pi * ?S (2 * pi * c)"
  proof (cases "2 * pi * c \<le> pi")
    case True
    with c have "0 \<le> 2 * pi * c" by simp
    from weighted_sine_sum_bounds(1) [OF mono nonneg le1 this True]
    have "0 \<le> ?S (2 * pi * c)" by simp
    then have "0 \<le> 2 / pi * ?S (2 * pi * c)" by simp
    with c show ?thesis by linarith
  next
    case False
    define y where "y = 2 * pi - 2 * pi * c"
    have y: "0 \<le> y" "y \<le> pi"
      using False c by (simp_all add: y_def)
    have ypos: "0 < y" using c by (simp add: y_def)
    have x: "2 * pi * c = 2 * pi - y" by (simp add: y_def)
    have "?S (2 * pi * c) = - ?S y"
      by (simp only: x sin_reflect) (simp add: sum_negf)
    moreover from weighted_sine_sum_bounds(2) [OF mono nonneg le1 y]
    have "?S y \<le> pi - y" by simp
    ultimately have "y - pi \<le> ?S (2 * pi * c)" by simp
    then have "2 / pi * (y - pi) \<le> 2 / pi * ?S (2 * pi * c)"
      by (intro mult_left_mono) simp_all
    moreover have "2 * c + 2 / pi * (y - pi) = y / pi"
      by (simp add: y_def field_simps)
    moreover have "0 < y / pi" using ypos by simp
    ultimately show ?thesis by linarith
  qed
  then show ?thesis by (simp only: w_def)
qed

text \<open>
  The designed coefficients of a filter of \<open>2 h + 1\<close> taps: the taps at distance \<open>k\<close>
  below and above the centre have the same value.
\<close>

lemma design_coeff_tap_value:
  assumes "1 \<le> h" "0 < cutoff_freq" "cutoff_freq < 1"
  shows "design_coeff cutoff_freq (2 * int h + 1) (int h) (int i) =
         Finite (tap_value cutoff_freq h i)"
  using assms(1)
  by (simp add: design_coeff_def sinc_value_def hamming_window_def tap_value_def Let_def
        center_tap_unit_interval [OF assms(2,3)])

lemma tap_value_above:
  assumes "1 \<le> k" "1 \<le> h"
  shows "tap_value c h (h + k) =
     1 / pi * ((0.54 + 0.46 * cos (pi * real k / real h)) * (sin (real k * (2 * pi * c)) / real k))"
proof -
  have "2 * pi * real_of_int (int (h + k)) / real_of_int (2 * int h) = pi + pi * real k / real h"
    using assms by (simp add: field_simps)
  then have "cos (2 * pi * real_of_int (int (h + k)) / real_of_int (2 * int h)) =
      - cos (pi * real k / real h)"
    by (simp only: cos_periodic_pi2)
  moreover have "2 * pi * c * real_of_int (int (h + k) - int h) = real k * (2 * pi * c)"
    by (simp add: algebra_simps)
  moreover have "pi * real_of_int (int (h + k) - int h) = pi * real k" by simp
  moreover have "int (h + k) - int h \<noteq> 0" using assms by simp
  ultimately show ?thesis
    by (simp only: tap_value_def if_False) (simp add: field_simps)
qed

lemma tap_value_below:
  assumes "1 \<le> k" "k \<le> h"
  shows "tap_value c h (h - k) =
     1 / pi * ((0.54 + 0.46 * cos (pi * real k / real h)) * (sin (real k * (2 * pi * c)) / real k))"
proof -
  from assms have h: "1 \<le> h" by simp
  have "2 * pi * real_of_int (int (h - k)) / real_of_int (2 * int h) = pi - pi * real k / real h"
    using assms by (simp add: field_simps of_nat_diff)
  then have "cos (2 * pi * real_of_int (int (h - k)) / real_of_int (2 * int h)) =
      - cos (pi * real k / real h)"
    by (simp only: cos_pi_minus)
  moreover have "2 * pi * c * real_of_int (int (h - k) - int h) = - (real k * (2 * pi * c))"
    using assms by (simp add: algebra_simps of_nat_diff)
  moreover have "pi * real_of_int (int (h - k) - int h) = - (pi * real k)"
    using assms by (simp add: of_nat_diff)
  moreover have "int (h - k) - int h \<noteq> 0" using assms by simp
  ultimately show ?thesis
    by (simp only: tap_value_def if_False) (simp add: field_simps)
qed

lemma tap_value_center: "tap_value c h h = 2 * c"
  by (simp add: tap_value_def)

lemma tap_sum_split:
  fixes r :: "nat \<Rightarrow> real"
  shows "(\<Sum>i<2 * h + 1. r i) = r h + (\<Sum>k=1..h. r (h - k)) + (\<Sum>k=1..h. r (h + k))"
proof -
  have "(\<Sum>i<2 * h + 1. r i) = (\<Sum>i=0..<h. r i) + (\<Sum>i=h..<2 * h + 1. r i)"
    by (simp only: lessThan_atLeast0) (rule sum.atLeastLessThan_concat [symmetric], simp_all)
  moreover have "(\<Sum>i=h..<2 * h + 1. r i) = r h + (\<Sum>i=Suc h..<2 * h + 1. r i)"
    by (rule sum.atLeast_Suc_lessThan) simp
  moreover have "(\<Sum>i=0..<h. r i) = (\<Sum>k=1..h. r (h - k))"
    by (rule sum.reindex_bij_witness [where i = "\<lambda>k. h - k" and j = "\<lambda>i. h - i"]) auto
  moreover have "(\<Sum>i=Suc h..<2 * h + 1. r i) = (\<Sum>k=1..h. r (h + k))"
    by (rule sum.reindex_bij_witness [where i = "\<lambda>k. h + k" and j = "\<lambda>i. i - h"]) auto
  ultimately show ?thesis by simp
qed

lemma tap_sum_positive:
  assumes c: "0 < c" "c < 1"
  shows "0 < (\<Sum>i<2 * Suc M + 1. tap_value c (Suc M) i)"
proof -
  let ?h = "Suc M"
  let ?t = "\<lambda>k. 1 / pi * ((0.54 + 0.46 * cos (pi * real k / real ?h)) *
                           (sin (real k * (2 * pi * c)) / real k))"
  have lo: "(\<Sum>k=1..?h. tap_value c ?h (?h - k)) = (\<Sum>k=1..?h. ?t k)"
  proof (rule sum.cong)
    fix k assume "k \<in> {1..?h}"
    then show "tap_value c ?h (?h - k) = ?t k" by (intro tap_value_below) simp_all
  qed simp
  have hi: "(\<Sum>k=1..?h. tap_value c ?h (?h + k)) = (\<Sum>k=1..?h. ?t k)"
  proof (rule sum.cong)
    fix k assume "k \<in> {1..?h}"
    then show "tap_value c ?h (?h + k) = ?t k" by (intro tap_value_above) simp_all
  qed simp
  have "(\<Sum>i<2 * ?h + 1. tap_value c ?h i) = 2 * c + 2 * (\<Sum>k=1..?h. ?t k)"
    by (simp only: tap_sum_split lo hi tap_value_center)
  also have "(\<Sum>k=1..?h. ?t k) = 1 / pi *
      (\<Sum>k=1..?h. (0.54 + 0.46 * cos (pi * real k / real ?h)) *
                    (sin (real k * (2 * pi * c)) / real k))"
    by (simp only: sum_distrib_left)
  also have "2 * c + 2 * (1 / pi *
      (\<Sum>k=1..?h. (0.54 + 0.46 * cos (pi * real k / real ?h)) *
                    (sin (real k * (2 * pi * c)) / real k))) =
      2 * c + 2 / pi *
      (\<Sum>k=1..?h. (0.54 + 0.46 * cos (pi * real k / real ?h)) *
                    (sin (real k * (2 * pi * c)) / real k))"
    by (simp only: mult.assoc [symmetric])
  finally show ?thesis
    using dc_gain_positive [OF c, of M] by simp
qed

text \<open>
  Claim C5. For every cutoff in \<open>(0, 1)\<close> and every odd \<open>num_taps \<ge> 3\<close> the normalised
  filter coefficients computed by \<open>apply_lowpass_filter\<close> are finite and sum to 1 (unity
  DC gain). The sum is exactly 1 in the exact arithmetic of the model; the rounding of
  doubles, which the tolerance of the claim allows for, is not modelled.
\<close>

theorem normalized_coefficients_sum_to_one:
  assumes "0 < cutoff_freq" "cutoff_freq < 1" "odd num_taps" "3 \<le> num_taps"
  shows "\<exists>coeffs. filter_coeffs cutoff_freq num_taps = map Finite coeffs \<and>
           length coeffs = nat num_taps \<and> sum_list coeffs = 1"
proof -
  from assms(3) obtain q where q: "num_taps = 2 * q + 1" by (elim oddE)
  define M where "M = nat q - 1"
  from q assms(4) have "1 \<le> q" by simp
  then have "int (Suc M) = q" by (simp add: M_def)
  with q have n: "num_taps = 2 * int (Suc M) + 1" by simp
  let ?h = "Suc M"
  let ?raw = "map (tap_value cutoff_freq ?h) [0..<2 * ?h + 1]"
  have center: "num_taps div 2 = int ?h" using n by simp
  have taps: "nat num_taps = 2 * ?h + 1" using n by simp
  have dc: "design_coeff cutoff_freq (2 * int ?h + 1) (int ?h) (int i) =
      Finite (tap_value cutoff_freq ?h i)" for i
    by (rule design_coeff_tap_value) (simp_all add: assms)
  have raw0: "map (\<lambda>i. design_coeff cutoff_freq (2 * int ?h + 1) (int ?h) (int i))
      [0..<2 * ?h + 1] = map Finite ?raw"
    by (simp only: dc map_map comp_def)
  have raw: "map (\<lambda>i. design_coeff cutoff_freq num_taps (num_taps div 2) (int i)) [0..<nat num_taps]
      = map Finite ?raw"
    unfolding center taps unfolding n by (rule raw0)
  have total: "sum_list ?raw = (\<Sum>i<2 * ?h + 1. tap_value cutoff_freq ?h i)"
    by (simp add: interv_sum_list_conv_sum_set_nat atLeast0LessThan)
  with tap_sum_positive [OF assms(1,2), of M] have nz: "sum_list ?raw \<noteq> 0" by simp
  have "filter_coeffs cutoff_freq num_taps = map Finite (map (\<lambda>c. c / sum_list ?raw) ?raw)"
    by (simp only: filter_coeffs_def Let_def raw normalize_coeffs_finite [OF nz])
  moreover have "length (map (\<lambda>c. c / sum_list ?raw) ?raw) = nat num_taps"
    by (simp add: taps)
  moreover have "sum_list (map (\<lambda>c. c / sum_list ?raw) ?raw) = 1"
    by (rule normalized_sum_one [OF nz])
  ultimately show ?thesis by blast
qed

theorem normalized_coefficients_sum_to_one_witness:
  "(0::real) < 1/2 \<and> (1/2::real) < 1 \<and> odd (3::int) \<and> (3::int) \<le> 3 \<and>
   filter_coeffs (1/2) 3 = map Finite [0, 1, 0] \<and> sum_list [0, 1, 0 :: real] = 1"
  using normalized_coefficients_sum_to_one [of "1/2" 3] filter_coeffs_3_half by simp

section \<open>Properties of the signal generator\<close>

text \<open>
  Claim C3 (amended). For every non-negative \<open>sample_rate\<close> and \<open>duration\<close> whose double
  product \<open>p = sample_rate * duration\<close> is below \<open>2^31\<close>, the signal returned by
  \<open>generate_test_signal\<close> has \<open>\<lfloor>p\<rfloor>\<close> samples: the cast to \<open>int\<close> truncates the double
  product, it does not round it to the nearest integer. From \<open>2^31\<close> on the cast is
  undefined and no signal of that length is returned.
\<close>

theorem generate_test_signal_length:
  assumes "0 \<le> sample_rate" and "0 \<le> duration"
    and "fp_mul (Val sample_rate) (Val duration) = Val p" and "p < 2 ^ 31"
  shows "\<exists>signal. generate_test_signal noise_dist frequency sample_rate duration noise_amplitude
                    = Inr signal \<and>
                  int (length signal) = \<lfloor>p\<rfloor>"
proof -
  from assms(1,2) have "0 \<le> sample_rate * duration" by simp
  moreover from assms(3) have "round_double (sample_rate * duration) = Val p" by simp
  ultimately have p: "0 \<le> p" by (rule round_double_nonneg)
  with assms(4) have "static_cast_int (Val p) = Inr \<lfloor>p\<rfloor>" by simp
  moreover from p have "0 \<le> \<lfloor>p\<rfloor>" by simp
  ultimately show ?thesis
    by (simp add: generate_test_signal_def assms(3) del: fp_mul.simps)
qed

text \<open>
  The product \<open>1000.0 * 0.29\<close>: the double nearest to 0.29 is
  \<open>5224175567749775 / 2^54\<close>, below 0.29; the exact product is below 290 and rounds to 290.
\<close>

lemma product_1000_029:
  "fp_mul (Val 1000) (Val (5224175567749775 / 2 ^ 54)) = Val 290"
proof -
  let ?x = "1000 * (5224175567749775 / 2 ^ 54) :: real"
  have "round_double ?x =
      Val (sgn ?x * (of_int 5101733952880640 * 2 powr real_of_int (8 - 52)))"
    by (rule round_double_near) (simp_all add: powr_neg_numeral abs_less_iff)
  moreover have "sgn ?x * (of_int 5101733952880640 * 2 powr real_of_int (8 - 52)) = 290"
    by (simp add: powr_neg_numeral)
  ultimately show ?thesis by (simp only: fp_mul.simps)
qed

theorem generate_test_signal_length_witness:
  "(0::real) \<le> 1000 \<and> (0::real) \<le> 5224175567749775 / 2 ^ 54 \<and>
   fp_mul (Val 1000) (Val (5224175567749775 / 2 ^ 54)) = Val 290 \<and> (290::real) < 2 ^ 31 \<and>
   (\<exists>signal. generate_test_signal zero_noise 10 1000 (5224175567749775 / 2 ^ 54) 0 = Inr signal \<and>
      int (length signal) = 290)"
proof -
  have a: "(0::real) \<le> 1000" and b: "(0::real) \<le> 5224175567749775 / 2 ^ 54"
    and c: "(290::real) < 2 ^ 31" by simp_all
  from generate_test_signal_length [OF a b product_1000_029 c, of zero_noise 10 0]
  have "\<exists>signal. generate_test_signal zero_noise 10 1000 (5224175567749775 / 2 ^ 54) 0
            = Inr signal \<and> int (length signal) = 290"
    by simp
  with a b c product_1000_029 show ?thesis by blast
qed

text \<open>
  The claim as stated fails at \<open>sample_rate = 7\<close>, \<open>duration = 1/4\<close>: the product 1.75, a
  double, rounds to 2, and the signal has one sample. It fails at \<open>sample_rate = 2^31\<close>,
  \<open>duration = 1\<close> too, where no signal is returned.
\<close>

theorem generate_test_signal_round_counterexample:
  "generate_test_signal zero_noise 1 7 (1/4) 0 = Inr [Finite 0] \<and>
   length [Finite 0] = 1 \<and> round (7 * (1/4) :: real) = (2::int) \<and>
   generate_test_signal zero_noise 1 (2 ^ 31) 1 0 = Inl CastOutOfRange"
proof -
  have "generate_test_signal zero_noise 1 7 (1/4) 0 = Inr [Finite 0]"
    by (simp add: generate_test_signal_def round_double_7_4 zero_noise_def)
  moreover have "round (7 * (1/4) :: real) = (2::int)"
    by (simp add: round_def)
  moreover have "generate_test_signal zero_noise 1 (2 ^ 31) 1 0 = Inl CastOutOfRange"
    by (simp add: generate_test_signal_def round_double_2_31 del: power_numeral)
  ultimately show ?thesis by simp
qed

end
